theory Spec2Isabelle
  imports Complex_Main
begin

section \<open>Python values used by the notebook\<close>

text \<open>
  The notebook \<^verbatim>\<open>05_QAOA.ipynb\<close> works on Python strings (measured bit-strings),
  unbounded integers (vertex indices, occurrence counts, the cost) and floats (angles, the
  expectation value). Bit-strings are modelled as \<^typ>\<open>string\<close>, integers as \<^typ>\<open>int\<close>.
  Floats are modelled as \<^typ>\<open>real\<close>: the quotient computed by \<^verbatim>\<open>get_expval\<close> is
  the exact value that Python's true division rounds to the nearest double.
  The exceptions of the modelled code are values of \<open>py_error\<close>: the two the notebook's
  own statements raise, and the one the circuit library raises on an invalid gate call.
\<close>

datatype py_error = IndexError | ZeroDivisionError | CircuitError

text \<open>
  \<^verbatim>\<open>seq[i]\<close>: an index below zero counts from the end of the sequence; an index
  outside \<open>-len \<le> i < len\<close> raises \<^verbatim>\<open>IndexError\<close>.
\<close>

definition valid_index :: "nat \<Rightarrow> int \<Rightarrow> bool" where
  "valid_index n i \<longleftrightarrow> - int n \<le> i \<and> i < int n"

definition norm_index :: "nat \<Rightarrow> int \<Rightarrow> nat" where
  "norm_index n i = (if i < 0 then nat (int n + i) else nat i)"

definition getitem :: "'a list \<Rightarrow> int \<Rightarrow> py_error + 'a" where
  "getitem seq i =
     (if valid_index (length seq) i then Inr (seq ! norm_index (length seq) i)
      else Inl IndexError)"

text \<open>
  \<^verbatim>\<open>seq[::-1]\<close>: the slice that starts at the last index and steps down by one to
  index 0, so its \<open>k\<close>-th element is \<open>seq[len - 1 - k]\<close>.
\<close>

definition slice_reversed :: "'a list \<Rightarrow> 'a list" where
  "slice_reversed seq = map (\<lambda>k. seq ! (length seq - 1 - k)) [0..<length seq]"

section \<open>The graph and the cost function\<close>

text \<open>
  \<^verbatim>\<open>graph = {'nodes': nodes, 'edges': edges}\<close> with \<^verbatim>\<open>nodes\<close> a list of integers and
  \<^verbatim>\<open>edges\<close> a list of pairs of integers.
\<close>

record graph =
  nodes :: "int list"
  edges :: "(int \<times> int) list"

text \<open>
  The body of the \<^verbatim>\<open>for i, j in graph['edges']\<close> loop of \<^verbatim>\<open>maxcut_cost\<close>, with the
  running \<^verbatim>\<open>value\<close> as accumulator. \<^verbatim>\<open>bitstring[i]\<close> is read before \<^verbatim>\<open>bitstring[j]\<close>;
  either read may raise.
\<close>

fun maxcut_loop :: "string \<Rightarrow> (int \<times> int) list \<Rightarrow> int \<Rightarrow> py_error + int" where
  "maxcut_loop bitstring [] val = Inr val"
| "maxcut_loop bitstring ((i, j) # es) val =
     (case getitem bitstring i of
        Inl e \<Rightarrow> Inl e
      | Inr bi \<Rightarrow>
          (case getitem bitstring j of
             Inl e \<Rightarrow> Inl e
           | Inr bj \<Rightarrow> maxcut_loop bitstring es (if bi \<noteq> bj then val + (- 1) else val)))"

definition maxcut_cost :: "string \<Rightarrow> graph \<Rightarrow> py_error + int" where
  "maxcut_cost bitstring g = maxcut_loop (slice_reversed bitstring) (edges g) 0"

section \<open>Reference notions for the cost function\<close>

text \<open>
  A bit-string covers the graph when every edge endpoint is an index Python accepts for a
  string of that length.
\<close>

definition covers :: "string \<Rightarrow> graph \<Rightarrow> bool" where
  "covers bitstring g \<longleftrightarrow>
     list_all (\<lambda>(i, j). valid_index (length bitstring) i \<and> valid_index (length bitstring) j)
       (edges g)"

text \<open>The bit of vertex \<open>i\<close>: position \<open>i\<close> of the reversed bit-string.\<close>

definition vertex_bit :: "string \<Rightarrow> int \<Rightarrow> char" where
  "vertex_bit bitstring i = rev bitstring ! norm_index (length bitstring) i"

text \<open>
  The cost in the words of the specification: every edge contributes \<open>-1\<close> when its
  endpoint bits differ and \<open>0\<close> when they are equal.
\<close>

definition edge_term :: "string \<Rightarrow> int \<times> int \<Rightarrow> int" where
  "edge_term bitstring e =
     (if vertex_bit bitstring (fst e) \<noteq> vertex_bit bitstring (snd e) then - 1 else 0)"

definition spec_cost :: "string \<Rightarrow> graph \<Rightarrow> int" where
  "spec_cost bitstring g = sum_list (map (edge_term bitstring) (edges g))"

definition cut_edges :: "string \<Rightarrow> graph \<Rightarrow> (int \<times> int) list" where
  "cut_edges bitstring g =
     filter (\<lambda>e. vertex_bit bitstring (fst e) \<noteq> vertex_bit bitstring (snd e)) (edges g)"

text \<open>
  A global bit flip exchanges the characters \<^verbatim>\<open>'0'\<close> and \<^verbatim>\<open>'1'\<close> at every position.
\<close>

definition flip_bit :: "char \<Rightarrow> char" where
  "flip_bit c = (if c = CHR ''0'' then CHR ''1'' else if c = CHR ''1'' then CHR ''0'' else c)"

definition bit_complement :: "string \<Rightarrow> string" where
  "bit_complement bitstring = map flip_bit bitstring"

text \<open>The example graph of the notebook: the 4-cycle.\<close>

definition graph4 :: graph where
  "graph4 = \<lparr>nodes = [0, 1, 2, 3], edges = [(0, 1), (1, 2), (2, 3), (0, 3)]\<rparr>"

section \<open>The expectation value\<close>

text \<open>
  \<^verbatim>\<open>counts.items()\<close> is the list of (bit-string, count) pairs of the dictionary in
  insertion order. The loop of \<^verbatim>\<open>get_expval\<close> carries \<^verbatim>\<open>cost\<close> and \<^verbatim>\<open>total_shots\<close>;
  an exception of \<^verbatim>\<open>maxcut_cost\<close> leaves the loop.
\<close>

fun expval_loop :: "graph \<Rightarrow> (string \<times> int) list \<Rightarrow> int \<Rightarrow> int \<Rightarrow> py_error + int \<times> int" where
  "expval_loop g [] cost total_shots = Inr (cost, total_shots)"
| "expval_loop g ((bitstring, count) # items) cost total_shots =
     (case maxcut_cost bitstring g of
        Inl e \<Rightarrow> Inl e
      | Inr c \<Rightarrow> expval_loop g items (cost + c * count) (total_shots + count))"

text \<open>\<^verbatim>\<open>a / b\<close> on integers: true division, \<^verbatim>\<open>ZeroDivisionError\<close> when \<open>b\<close> is zero.\<close>

definition true_divide :: "int \<Rightarrow> int \<Rightarrow> py_error + real" where
  "true_divide a b = (if b = 0 then Inl ZeroDivisionError else Inr (real_of_int a / real_of_int b))"

definition get_expval :: "(string \<times> int) list \<Rightarrow> graph \<Rightarrow> py_error + real" where
  "get_expval counts g =
     (case expval_loop g counts 0 0 of
        Inl e \<Rightarrow> Inl e
      | Inr (cost, total_shots) \<Rightarrow> true_divide cost total_shots)"

text \<open>Reference notions: the total trial count and the count-weighted sum of the costs.\<close>

definition total_count :: "(string \<times> int) list \<Rightarrow> int" where
  "total_count counts = sum_list (map snd counts)"

definition weighted_cost :: "(string \<times> int) list \<Rightarrow> graph \<Rightarrow> int" where
  "weighted_cost counts g = sum_list (map (\<lambda>(b, n). spec_cost b g * n) counts)"

definition all_cover :: "(string \<times> int) list \<Rightarrow> graph \<Rightarrow> bool" where
  "all_cover counts g \<longleftrightarrow> list_all (\<lambda>(b, n). covers b g) counts"

definition nonneg_counts :: "(string \<times> int) list \<Rightarrow> bool" where
  "nonneg_counts counts \<longleftrightarrow> list_all (\<lambda>(b, n). 0 \<le> n) counts"

text \<open>
  A bit assignment of a graph: one character \<^verbatim>\<open>'0'\<close> or \<^verbatim>\<open>'1'\<close> per vertex.
\<close>

definition bit_assignment :: "graph \<Rightarrow> string \<Rightarrow> bool" where
  "bit_assignment g b \<longleftrightarrow>
     length b = length (nodes g) \<and> list_all (\<lambda>c. c = CHR ''0'' \<or> c = CHR ''1'') b"

section \<open>The circuit builder\<close>

text \<open>
  The circuit description is what \<^verbatim>\<open>Build_QAOA\<close> obtains from the circuit object: the
  sizes of the two registers and the sequence of appended operations, each on the qubits
  its arguments resolve to. \<^verbatim>\<open>barrier()\<close> without arguments spans all qubits.
\<close>

datatype instruction =
  H nat
| Barrier
| CX nat nat
| RZ real nat
| RX real nat
| Measure nat nat

record circuit =
  num_qubits :: nat
  num_clbits :: nat
  data :: "instruction list"

text \<open>
  The gate methods belong to the circuit library, not to the notebook. They enter the model
  with the argument checks the library applies to the calls \<^verbatim>\<open>Build_QAOA\<close> makes on a
  circuit of \<open>n\<close> qubits:
  \<^item> an integer qubit argument is resolved like a list index, so an index below zero counts
    from the last qubit, and an index outside \<open>-n \<le> q < n\<close> raises \<^verbatim>\<open>CircuitError\<close>;
  \<^item> \<^verbatim>\<open>cx\<close> raises \<^verbatim>\<open>CircuitError\<close> when its two arguments resolve to the same qubit;
  \<^item> a gate called with \<^verbatim>\<open>range(num_qubits)\<close> appends one operation per qubit, in order,
    and raises \<^verbatim>\<open>CircuitError\<close> when the range is empty.
\<close>

definition qubit_arg :: "nat \<Rightarrow> int \<Rightarrow> py_error + nat" where
  "qubit_arg n q = (if valid_index n q then Inr (norm_index n q) else Inl CircuitError)"

definition cx :: "nat \<Rightarrow> int \<Rightarrow> int \<Rightarrow> py_error + instruction" where
  "cx n a b =
     (case qubit_arg n a of
        Inl e \<Rightarrow> Inl e
      | Inr qa \<Rightarrow>
          (case qubit_arg n b of
             Inl e \<Rightarrow> Inl e
           | Inr qb \<Rightarrow> if qa = qb then Inl CircuitError else Inr (CX qa qb)))"

definition rz :: "nat \<Rightarrow> real \<Rightarrow> int \<Rightarrow> py_error + instruction" where
  "rz n theta q = (case qubit_arg n q of Inl e \<Rightarrow> Inl e | Inr qq \<Rightarrow> Inr (RZ theta qq))"

definition on_range :: "nat \<Rightarrow> (nat \<Rightarrow> instruction) \<Rightarrow> py_error + instruction list" where
  "on_range n gate = (if n = 0 then Inl CircuitError else Inr (map gate [0..<n]))"

text \<open>\<^verbatim>\<open>range(n)\<close>: empty when \<open>n \<le> 0\<close>.\<close>

definition py_range :: "int \<Rightarrow> int list" where
  "py_range n = map int [0..<nat n]"

text \<open>
  The inner loop \<^verbatim>\<open>for ab in graph['edges']\<close> of layer \<open>i\<close> on \<open>n\<close> qubits. Each
  iteration calls \<^verbatim>\<open>barrier\<close>, \<^verbatim>\<open>cx\<close>, reads \<^verbatim>\<open>gammas[i]\<close>, calls \<^verbatim>\<open>rz\<close> and
  \<^verbatim>\<open>cx\<close> again, in this order; the first call that raises ends the construction.
\<close>

fun cost_loop :: "nat \<Rightarrow> real list \<Rightarrow> int \<Rightarrow> (int \<times> int) list \<Rightarrow> instruction list
    \<Rightarrow> py_error + instruction list" where
  "cost_loop n gammas i [] qc = Inr qc"
| "cost_loop n gammas i (ab # es) qc =
     (case cx n (fst ab) (snd ab) of
        Inl e \<Rightarrow> Inl e
      | Inr g1 \<Rightarrow>
          (case getitem gammas i of
             Inl e \<Rightarrow> Inl e
           | Inr gamma \<Rightarrow>
               (case rz n (0.5 * gamma) (snd ab) of
                  Inl e \<Rightarrow> Inl e
                | Inr g2 \<Rightarrow>
                    (case cx n (fst ab) (snd ab) of
                       Inl e \<Rightarrow> Inl e
                     | Inr g3 \<Rightarrow> cost_loop n gammas i es (qc @ [Barrier, g1, g2, g3])))))"

text \<open>
  The outer loop \<^verbatim>\<open>for i in range(layers)\<close>: the edge loop, then \<^verbatim>\<open>barrier\<close> and
  \<^verbatim>\<open>rx(betas[i], range(num_qubits))\<close>.
\<close>

fun layer_loop :: "graph \<Rightarrow> real list \<Rightarrow> real list \<Rightarrow> nat \<Rightarrow> int list \<Rightarrow> instruction list
    \<Rightarrow> py_error + instruction list" where
  "layer_loop g gammas betas n [] qc = Inr qc"
| "layer_loop g gammas betas n (i # rest) qc =
     (case cost_loop n gammas i (edges g) qc of
        Inl e \<Rightarrow> Inl e
      | Inr qc1 \<Rightarrow>
          (case getitem betas i of
             Inl e \<Rightarrow> Inl e
           | Inr beta \<Rightarrow>
               (case on_range n (RX beta) of
                  Inl e \<Rightarrow> Inl e
                | Inr rxs \<Rightarrow> layer_loop g gammas betas n rest (qc1 @ Barrier # rxs))))"

definition Build_QAOA :: "graph \<Rightarrow> real list \<Rightarrow> real list \<Rightarrow> int \<Rightarrow> py_error + circuit" where
  "Build_QAOA g gammas betas layers =
     (let n = length (nodes g)
      in case on_range n H of
           Inl e \<Rightarrow> Inl e
         | Inr qc \<Rightarrow>
             (case layer_loop g gammas betas n (py_range layers) qc of
                Inl e \<Rightarrow> Inl e
              | Inr qc1 \<Rightarrow>
                  (case on_range n (\<lambda>q. Measure q q) of
                     Inl e \<Rightarrow> Inl e
                   | Inr ms \<Rightarrow> Inr \<lparr>num_qubits = n, num_clbits = n, data = qc1 @ ms\<rparr>)))"

text \<open>
  The graphs on which no gate call raises: at least one vertex, and every edge joins two
  valid qubit indices that resolve to different qubits.
\<close>

definition valid_edge :: "nat \<Rightarrow> int \<times> int \<Rightarrow> bool" where
  "valid_edge n ab \<longleftrightarrow>
     valid_index n (fst ab) \<and> valid_index n (snd ab)
     \<and> norm_index n (fst ab) \<noteq> norm_index n (snd ab)"

definition well_formed :: "graph \<Rightarrow> bool" where
  "well_formed g \<longleftrightarrow> nodes g \<noteq> [] \<and> list_all (valid_edge (length (nodes g))) (edges g)"

text \<open>
  The circuit in the words of the specification: the superposition layer, then for each
  layer one block per edge with the layer's cost angle and one mixer rotation per vertex
  with the layer's mixer angle, then the measurement.
\<close>

definition cost_block :: "nat \<Rightarrow> real \<Rightarrow> int \<times> int \<Rightarrow> instruction list" where
  "cost_block n gamma ab =
     [Barrier, CX (norm_index n (fst ab)) (norm_index n (snd ab)),
      RZ (0.5 * gamma) (norm_index n (snd ab)),
      CX (norm_index n (fst ab)) (norm_index n (snd ab))]"

definition mixer_block :: "nat \<Rightarrow> real \<Rightarrow> instruction list" where
  "mixer_block n beta = Barrier # map (RX beta) [0..<n]"

definition layer_block :: "graph \<Rightarrow> real \<Rightarrow> real \<Rightarrow> instruction list" where
  "layer_block g gamma beta =
     concat (map (cost_block (length (nodes g)) gamma) (edges g))
     @ mixer_block (length (nodes g)) beta"

definition qaoa_layer :: "graph \<Rightarrow> real list \<Rightarrow> real list \<Rightarrow> nat \<Rightarrow> instruction list" where
  "qaoa_layer g gammas betas l = layer_block g (gammas ! l) (betas ! l)"

definition spec_circuit :: "graph \<Rightarrow> real list \<Rightarrow> real list \<Rightarrow> nat \<Rightarrow> circuit" where
  "spec_circuit g gammas betas L =
     \<lparr>num_qubits = length (nodes g), num_clbits = length (nodes g),
      data = map H [0..<length (nodes g)]
             @ concat (map (qaoa_layer g gammas betas) [0..<L])
             @ map (\<lambda>q. Measure q q) [0..<length (nodes g)]\<rparr>"

text \<open>
  The circuit of a parameter vector in the words of the specification: entry \<open>l\<close> of
  the vector is the cost angle of layer \<open>l\<close> and entry \<open>L + l\<close> is its mixer angle.
\<close>

definition vector_circuit :: "graph \<Rightarrow> real list \<Rightarrow> nat \<Rightarrow> circuit" where
  "vector_circuit g angles L =
     \<lparr>num_qubits = length (nodes g), num_clbits = length (nodes g),
      data = map H [0..<length (nodes g)]
             @ concat (map (\<lambda>l. layer_block g (angles ! l) (angles ! (L + l))) [0..<L])
             @ map (\<lambda>q. Measure q q) [0..<length (nodes g)]\<rparr>"

section \<open>The objective function and the optimizer driver\<close>

text \<open>
  \<^verbatim>\<open>seq[:k]\<close> and \<^verbatim>\<open>seq[k:]\<close>: a bound below zero counts from the end, and bounds
  outside the sequence are clipped.
\<close>

definition slice_upto :: "'a list \<Rightarrow> int \<Rightarrow> 'a list" where
  "slice_upto seq k = take (norm_index (length seq) k) seq"

definition slice_from :: "'a list \<Rightarrow> int \<Rightarrow> 'a list" where
  "slice_from seq k = drop (norm_index (length seq) k) seq"

text \<open>
  The mutable state the objective function works on: the global list \<^verbatim>\<open>expval_list\<close>
  and the state of the simulation backend's sampler. The backend is a parameter: its
  \<^verbatim>\<open>transpile\<close> step, and \<^verbatim>\<open>run(...).result().get_counts()\<close> as a function of the
  circuit, the shots and the sampler state.
\<close>

record 'r session =
  expval_list :: "real list"
  sampler :: 'r

record 'r backend =
  transpile :: "circuit \<Rightarrow> circuit"
  run_get_counts :: "circuit \<Rightarrow> int \<Rightarrow> 'r \<Rightarrow> (string \<times> int) list \<times> 'r"

text \<open>
  The body of \<^verbatim>\<open>run_QAOA\<close> after the angles are split: build, transpile and run the
  circuit, compute the expectation value, append it to \<^verbatim>\<open>expval_list\<close>, return it.
\<close>

definition run_angles :: "graph \<Rightarrow> 'r backend \<Rightarrow> int \<Rightarrow> int \<Rightarrow> real list \<Rightarrow> real list
    \<Rightarrow> 'r session \<Rightarrow> (py_error + real) \<times> 'r session" where
  "run_angles g bk shots layers gammas betas s =
     (case Build_QAOA g gammas betas layers of
        Inl e \<Rightarrow> (Inl e, s)
      | Inr qc \<Rightarrow>
          (case run_get_counts bk (transpile bk qc) shots (sampler s) of
             (counts, r) \<Rightarrow>
               (case get_expval counts g of
                  Inl e \<Rightarrow> (Inl e, s\<lparr>sampler := r\<rparr>)
                | Inr expval \<Rightarrow>
                    (Inr expval, s\<lparr>expval_list := expval_list s @ [expval], sampler := r\<rparr>))))"

definition run_QAOA :: "graph \<Rightarrow> 'r backend \<Rightarrow> int \<Rightarrow> int \<Rightarrow> real list
    \<Rightarrow> 'r session \<Rightarrow> (py_error + real) \<times> 'r session" where
  "run_QAOA g bk shots layers angles s =
     (let gammas = slice_upto angles layers;
          betas = slice_from angles layers
      in run_angles g bk shots layers gammas betas s)"

text \<open>
  \<^verbatim>\<open>get_QAOA_func\<close> clears \<^verbatim>\<open>expval_list\<close> and returns the closure \<^verbatim>\<open>run_QAOA\<close> over
  its four arguments.
\<close>

definition get_QAOA_func :: "graph \<Rightarrow> 'r backend \<Rightarrow> int \<Rightarrow> int \<Rightarrow> 'r session
    \<Rightarrow> (real list \<Rightarrow> 'r session \<Rightarrow> (py_error + real) \<times> 'r session) \<times> 'r session" where
  "get_QAOA_func g bk shots layers s = (run_QAOA g bk shots layers, s\<lparr>expval_list := []\<rparr>)"

text \<open>
  \<^verbatim>\<open>x0 = [gamma_0 for i in range(layers)] + [beta_0 for i in range(layers)]\<close>
\<close>

definition gamma_0 :: real where "gamma_0 = 3.147"

definition beta_0 :: real where "beta_0 = 3.147"

definition x0 :: "int \<Rightarrow> real list" where
  "x0 layers = map (\<lambda>i. gamma_0) (py_range layers) @ map (\<lambda>i. beta_0) (py_range layers)"

text \<open>
  \<^verbatim>\<open>optimize_QAOA\<close> hands the objective function and \<^verbatim>\<open>x0\<close> to the external minimizer,
  which is a parameter here: any function of the objective, the initial guess, the
  method name, the tolerance and the iteration cap that works on the session.
\<close>

definition optimize_QAOA ::
  "((real list \<Rightarrow> 'r session \<Rightarrow> (py_error + real) \<times> 'r session) \<Rightarrow> real list \<Rightarrow> string \<Rightarrow> real
      \<Rightarrow> int \<Rightarrow> 'r session \<Rightarrow> 'res \<times> 'r session)
    \<Rightarrow> graph \<Rightarrow> 'r backend \<Rightarrow> int \<Rightarrow> int \<Rightarrow> int \<Rightarrow> string \<Rightarrow> 'r session \<Rightarrow> 'res \<times> 'r session" where
  "optimize_QAOA minimize g bk shots iterations layers method s =
     (case get_QAOA_func g bk shots layers s of
        (func, s1) \<Rightarrow> minimize func (x0 layers) method (1 / 100) iterations s1)"

text \<open>
  A run of the optimizer is a sequence of calls of the objective function, one after the
  other on the session; \<open>evaluations\<close> performs the calls for a given sequence of
  parameter vectors and collects what each call returned or raised.
\<close>

fun evaluations :: "(real list \<Rightarrow> 'r session \<Rightarrow> (py_error + real) \<times> 'r session) \<Rightarrow> real list list
    \<Rightarrow> 'r session \<Rightarrow> (py_error + real) list \<times> 'r session" where
  "evaluations func [] s = ([], s)"
| "evaluations func (angles # rest) s =
     (case func angles s of
        (r, s1) \<Rightarrow> (case evaluations func rest s1 of (rs, s2) \<Rightarrow> (r # rs, s2)))"

text \<open>The scalars returned by a sequence of calls, in call order.\<close>

fun returned :: "(py_error + real) list \<Rightarrow> real list" where
  "returned [] = []"
| "returned (Inl e # rs) = returned rs"
| "returned (Inr v # rs) = v # returned rs"

section \<open>Solution extraction\<close>

text \<open>
  \<^verbatim>\<open>most_probable_solution = most_probable_solution[::-1]\<close> followed by
  \<^verbatim>\<open>[i for i, value in enumerate(most_probable_solution) if value == b]\<close>.
\<close>

definition solution_configuration :: "string \<Rightarrow> string" where
  "solution_configuration most_probable_solution = slice_reversed most_probable_solution"

definition indices_of :: "char \<Rightarrow> string \<Rightarrow> nat list" where
  "indices_of b configuration = map fst (filter (\<lambda>(i, v). v = b) (enumerate 0 configuration))"

section \<open>A concrete instance\<close>

text \<open>
  A two-vertex graph with one edge, and a backend that leaves the circuit as it is and
  whose sampler state counts the runs: run number \<open>r\<close> reports \<open>r\<close> times the
  bit-string \<^verbatim>\<open>01\<close> and once \<^verbatim>\<open>00\<close>. The statements below are exercised on them.
\<close>

definition graph2 :: graph where
  "graph2 = \<lparr>nodes = [0, 1], edges = [(0, 1)]\<rparr>"

definition counting_backend :: "nat backend" where
  "counting_backend =
     \<lparr>transpile = (\<lambda>qc. qc),
      run_get_counts = (\<lambda>qc shots r. ([(''01'', int r), (''00'', 1)], Suc r))\<rparr>"

text \<open>The triangle, whose best cut leaves one edge uncut.\<close>

definition graph3 :: graph where
  "graph3 = \<lparr>nodes = [0, 1, 2], edges = [(0, 1), (1, 2), (0, 2)]\<rparr>"

text \<open>
  A backend whose sampler state records the circuits it is given, and which reports the
  bit-string \<^verbatim>\<open>01\<close> once per run.
\<close>

definition recording_backend :: "circuit list backend" where
  "recording_backend =
     \<lparr>transpile = (\<lambda>qc. qc),
      run_get_counts = (\<lambda>qc shots r. ([(''01'', 1)], r @ [qc]))\<rparr>"

section \<open>Properties of the cost function\<close>

lemma slice_reversed_rev: "slice_reversed seq = rev seq"
  by (rule nth_equalityI) (simp_all add: slice_reversed_def rev_nth)

lemma maxcut_loop_covered:
  assumes "list_all (\<lambda>(i, j). valid_index (length s) i \<and> valid_index (length s) j) es"
  shows "maxcut_loop s es val =
           Inr (val + sum_list (map (\<lambda>e. if s ! norm_index (length s) (fst e)
                                            \<noteq> s ! norm_index (length s) (snd e)
                                         then - 1 else 0) es))"
  using assms
proof (induction es arbitrary: val)
  case Nil
  show ?case by simp
next
  case (Cons e es)
  obtain i j where e: "e = (i, j)" by (cases e)
  from Cons.prems e have ij: "valid_index (length s) i" "valid_index (length s) j"
    and rest: "list_all (\<lambda>(i, j). valid_index (length s) i \<and> valid_index (length s) j) es"
    by simp_all
  show ?case
    using ij Cons.IH [OF rest] by (simp add: e getitem_def)
qed

lemma maxcut_cost_covered:
  assumes "covers bitstring g"
  shows "maxcut_cost bitstring g = Inr (spec_cost bitstring g)"
proof -
  have "list_all (\<lambda>(i, j). valid_index (length (rev bitstring)) i
                          \<and> valid_index (length (rev bitstring)) j) (edges g)"
    using assms by (simp add: covers_def)
  from maxcut_loop_covered [OF this, of 0]
  show ?thesis
    by (simp add: maxcut_cost_def slice_reversed_rev spec_cost_def edge_term_def
        vertex_bit_def cong: map_cong)
qed

lemma norm_index_less: "valid_index n i \<Longrightarrow> norm_index n i < n"
  by (auto simp: valid_index_def norm_index_def)

lemma maxcut_loop_uncovered:
  assumes "\<not> list_all (\<lambda>(i, j). valid_index (length s) i \<and> valid_index (length s) j) es"
  shows "maxcut_loop s es val = Inl IndexError"
  using assms
proof (induction es arbitrary: val)
  case Nil
  then show ?case by simp
next
  case (Cons e es)
  obtain i j where e: "e = (i, j)" by (cases e)
  show ?case
  proof (cases "valid_index (length s) i \<and> valid_index (length s) j")
    case True
    with Cons.prems e
    have "\<not> list_all (\<lambda>(i, j). valid_index (length s) i \<and> valid_index (length s) j) es"
      by simp
    from Cons.IH [OF this] True show ?thesis by (simp add: e getitem_def)
  next
    case False
    then show ?thesis by (auto simp: e getitem_def)
  qed
qed

lemma maxcut_cost_uncovered:
  assumes "\<not> covers bitstring g"
  shows "maxcut_cost bitstring g = Inl IndexError"
proof -
  have "\<not> list_all (\<lambda>(i, j). valid_index (length (rev bitstring)) i
                          \<and> valid_index (length (rev bitstring)) j) (edges g)"
    using assms by (simp add: covers_def)
  from maxcut_loop_uncovered [OF this]
  show ?thesis by (simp add: maxcut_cost_def slice_reversed_rev)
qed

lemma sum_list_edge_term_filter:
  "sum_list (map (edge_term bitstring) es) =
     - int (length (filter (\<lambda>e. vertex_bit bitstring (fst e) \<noteq> vertex_bit bitstring (snd e)) es))"
  by (induction es) (simp_all add: edge_term_def)

lemma spec_cost_cut_edges: "spec_cost bitstring g = - int (length (cut_edges bitstring g))"
  unfolding spec_cost_def cut_edges_def by (rule sum_list_edge_term_filter)

lemma sum_list_edge_term_bounds:
  "- int (length es) \<le> sum_list (map (edge_term bitstring) es)
   \<and> sum_list (map (edge_term bitstring) es) \<le> 0"
  by (induction es) (auto simp: edge_term_def)

lemma spec_cost_bounds:
  "- int (length (edges g)) \<le> spec_cost bitstring g \<and> spec_cost bitstring g \<le> 0"
  unfolding spec_cost_def by (rule sum_list_edge_term_bounds)

lemma vertex_bit_replicate:
  "valid_index n i \<Longrightarrow> vertex_bit (replicate n b) i = b"
  by (simp add: vertex_bit_def norm_index_less)

lemma sum_list_all_zero:
  "(\<And>e. e \<in> set es \<Longrightarrow> f e = (0::int)) \<Longrightarrow> sum_list (map f es) = 0"
  by (induction es) simp_all

lemma spec_cost_replicate:
  assumes "covers (replicate n b) g"
  shows "spec_cost (replicate n b) g = 0"
  unfolding spec_cost_def
proof (rule sum_list_all_zero)
  fix e assume "e \<in> set (edges g)"
  with assms have "valid_index n (fst e)" "valid_index n (snd e)"
    by (auto simp: covers_def list_all_iff)
  then show "edge_term (replicate n b) e = 0"
    by (simp add: edge_term_def vertex_bit_replicate)
qed

lemma inj_flip_bit: "inj flip_bit"
  by (rule injI) (auto simp: flip_bit_def split: if_splits)

lemma covers_bit_complement: "covers (bit_complement bitstring) g = covers bitstring g"
  by (simp add: covers_def bit_complement_def)

lemma vertex_bit_complement:
  "valid_index (length bitstring) i \<Longrightarrow>
     vertex_bit (bit_complement bitstring) i = flip_bit (vertex_bit bitstring i)"
  by (simp add: vertex_bit_def bit_complement_def rev_map norm_index_less)

lemma edge_term_complement:
  assumes "valid_index (length bitstring) (fst e)" and "valid_index (length bitstring) (snd e)"
  shows "edge_term (bit_complement bitstring) e = edge_term bitstring e"
  using assms by (simp add: edge_term_def vertex_bit_complement inj_eq [OF inj_flip_bit])

lemma spec_cost_complement:
  assumes "covers bitstring g"
  shows "spec_cost (bit_complement bitstring) g = spec_cost bitstring g"
proof -
  have "map (edge_term (bit_complement bitstring)) (edges g)
          = map (edge_term bitstring) (edges g)"
  proof (rule map_cong [OF refl])
    fix e assume "e \<in> set (edges g)"
    with assms have "valid_index (length bitstring) (fst e)"
      "valid_index (length bitstring) (snd e)"
      by (auto simp: covers_def list_all_iff)
    then show "edge_term (bit_complement bitstring) e = edge_term bitstring e"
      by (rule edge_term_complement)
  qed
  then show ?thesis unfolding spec_cost_def by (rule arg_cong)
qed

lemma maxcut_cost_complement:
  "maxcut_cost (bit_complement bitstring) g = maxcut_cost bitstring g"
proof (cases "covers bitstring g")
  case True
  then show ?thesis
    by (simp add: maxcut_cost_covered covers_bit_complement spec_cost_complement)
next
  case False
  then show ?thesis
    by (simp add: maxcut_cost_uncovered covers_bit_complement)
qed

lemma maxcut_cost_cases:
  "maxcut_cost bitstring g =
     (if covers bitstring g then Inr (spec_cost bitstring g) else Inl IndexError)"
  by (simp add: maxcut_cost_covered maxcut_cost_uncovered)

lemma graph4_lower_bound:
  assumes "maxcut_cost bitstring graph4 = Inr v"
  shows "- 4 \<le> v"
proof -
  from assms have "v = spec_cost bitstring graph4"
    by (simp add: maxcut_cost_cases split: if_splits)
  moreover have "- int (length (edges graph4)) \<le> spec_cost bitstring graph4"
    using spec_cost_bounds by blast
  ultimately show ?thesis by (simp add: graph4_def)
qed

subsection \<open>The cost as a sum over the edges\<close>

text \<open>
  Claim C2. For every graph and every bit-string whose length covers all edge-endpoint
  indices, \<^verbatim>\<open>maxcut_cost\<close> returns the sum over the edges of \<open>-1\<close> when the two endpoint
  bits of the reversed string differ and \<open>0\<close> when they are equal, which is the negated
  number of cut edges under the reversed-bit-order convention.
\<close>

theorem maxcut_cost_is_negated_cut:
  assumes "covers bitstring g"
  shows "maxcut_cost bitstring g = Inr (spec_cost bitstring g)
       \<and> spec_cost bitstring g = - int (length (cut_edges bitstring g))"
  using assms by (simp add: maxcut_cost_covered spec_cost_cut_edges)

theorem maxcut_cost_is_negated_cut_witness:
  "covers ''011'' \<lparr>nodes = [0, 1, 2], edges = [(0, 1), (1, 2)]\<rparr>
   \<and> maxcut_cost ''011'' \<lparr>nodes = [0, 1, 2], edges = [(0, 1), (1, 2)]\<rparr> = Inr (- 1)
   \<and> cut_edges ''011'' \<lparr>nodes = [0, 1, 2], edges = [(0, 1), (1, 2)]\<rparr> = [(1, 2)]"
proof -
  have h: "covers ''011'' \<lparr>nodes = [0, 1, 2], edges = [(0, 1), (1, 2)]\<rparr>"
    by (simp add: covers_def valid_index_def)
  show ?thesis
    using h maxcut_cost_is_negated_cut [OF h]
    by (simp add: cut_edges_def vertex_bit_def norm_index_def)
qed

subsection \<open>Uniform assignments cut nothing\<close>

text \<open>
  Claim C7. For any graph and any bit assignment in which every bit has the same value,
  on which the edge endpoints are valid indices, \<^verbatim>\<open>maxcut_cost\<close> evaluates to 0.
\<close>

theorem maxcut_cost_uniform:
  assumes "covers (replicate n b) g"
  shows "maxcut_cost (replicate n b) g = Inr 0"
  using assms by (simp add: maxcut_cost_covered spec_cost_replicate)

theorem maxcut_cost_uniform_witness:
  "covers ''1111'' graph4 \<and> maxcut_cost ''1111'' graph4 = Inr 0"
proof -
  have r: "replicate 4 (CHR ''1'') = ''1111''"
    by (simp add: numeral_eq_Suc)
  have h: "covers (replicate 4 (CHR ''1'')) graph4"
    by (simp add: covers_def graph4_def valid_index_def)
  show ?thesis
    using h maxcut_cost_uniform [OF h] by (simp add: r)
qed

subsection \<open>The 4-cycle and the global bit flip\<close>

text \<open>
  Claim C8. On the 4-cycle with edges (0,1), (1,2), (2,3), (0,3) the alternating
  assignment 0/1/0/1 has cost \<open>-4\<close>, no bit-string has a smaller cost, and the
  bit-complement has the same cost; for every graph the outcome of \<^verbatim>\<open>maxcut_cost\<close> is
  unchanged by a global bit flip.
\<close>

theorem four_cycle_alternating:
  "maxcut_cost ''0101'' graph4 = Inr (- 4)
   \<and> bit_complement ''0101'' = ''1010''
   \<and> maxcut_cost ''1010'' graph4 = Inr (- 4)
   \<and> (\<forall>bitstring v. maxcut_cost bitstring graph4 = Inr v \<longrightarrow> - 4 \<le> v)
   \<and> (\<forall>bitstring g. maxcut_cost (bit_complement bitstring) g = maxcut_cost bitstring g)"
proof -
  have a: "maxcut_cost ''0101'' graph4 = Inr (- 4)"
    by (simp add: maxcut_cost_def slice_reversed_def graph4_def getitem_def valid_index_def
        norm_index_def)
  have b: "bit_complement ''0101'' = ''1010''"
    by (simp add: bit_complement_def flip_bit_def)
  have c: "maxcut_cost ''1010'' graph4 = Inr (- 4)"
    using a maxcut_cost_complement [of "''0101''" graph4] by (simp add: b)
  show ?thesis
    using a b c graph4_lower_bound maxcut_cost_complement by blast
qed

theorem four_cycle_alternating_witness:
  "maxcut_cost ''0011'' graph4 = Inr (- 2) \<and> - 4 \<le> (- 2 :: int)
   \<and> maxcut_cost (bit_complement ''0011'') graph4 = Inr (- 2)"
proof -
  have h: "maxcut_cost ''0011'' graph4 = Inr (- 2)"
    by (simp add: maxcut_cost_def slice_reversed_def graph4_def getitem_def valid_index_def
        norm_index_def)
  from four_cycle_alternating
  have "maxcut_cost ''0011'' graph4 = Inr (- 2) \<longrightarrow> - 4 \<le> (- 2 :: int)"
    and "maxcut_cost (bit_complement ''0011'') graph4 = maxcut_cost ''0011'' graph4"
    by blast+
  with h show ?thesis by simp
qed

subsection \<open>Bounds of the cost\<close>

text \<open>
  Claim C10. For every graph and every bit-string whose length covers all edge-endpoint
  indices, \<^verbatim>\<open>maxcut_cost\<close> returns an integer between minus the number of edges and 0.
\<close>

theorem maxcut_cost_range:
  assumes "covers bitstring g"
  shows "\<exists>v. maxcut_cost bitstring g = Inr v \<and> - int (length (edges g)) \<le> v \<and> v \<le> 0"
  using assms spec_cost_bounds [of g bitstring] by (simp add: maxcut_cost_covered)

theorem maxcut_cost_range_witness:
  "covers ''0001'' graph4
   \<and> (\<exists>v. maxcut_cost ''0001'' graph4 = Inr v \<and> - 4 \<le> v \<and> v \<le> 0)"
proof -
  have h: "covers ''0001'' graph4"
    by (simp add: covers_def graph4_def valid_index_def)
  show ?thesis
    using h maxcut_cost_range [OF h] by (simp add: graph4_def)
qed

section \<open>Properties of the expectation value\<close>

lemma expval_loop_covered:
  assumes "all_cover counts g"
  shows "expval_loop g counts cost total_shots =
           Inr (cost + weighted_cost counts g, total_shots + total_count counts)"
  using assms
proof (induction counts arbitrary: cost total_shots)
  case Nil
  show ?case by (simp add: weighted_cost_def total_count_def)
next
  case (Cons item items)
  obtain b n where item: "item = (b, n)" by (cases item)
  from Cons.prems item have cov: "covers b g" and rest: "all_cover items g"
    by (simp_all add: all_cover_def)
  have "expval_loop g (item # items) cost total_shots =
          expval_loop g items (cost + spec_cost b g * n) (total_shots + n)"
    by (simp add: item maxcut_cost_covered [OF cov])
  also have "\<dots> = Inr (cost + spec_cost b g * n + weighted_cost items g,
                       total_shots + n + total_count items)"
    by (rule Cons.IH [OF rest])
  also have "\<dots> = Inr (cost + weighted_cost (item # items) g,
                       total_shots + total_count (item # items))"
    by (simp add: item weighted_cost_def total_count_def)
  finally show ?case .
qed

lemma expval_loop_uncovered:
  assumes "\<not> all_cover counts g"
  shows "expval_loop g counts cost total_shots = Inl IndexError"
  using assms
proof (induction counts arbitrary: cost total_shots)
  case Nil
  then show ?case by (simp add: all_cover_def)
next
  case (Cons item items)
  obtain b n where item: "item = (b, n)" by (cases item)
  show ?case
  proof (cases "covers b g")
    case True
    with Cons.prems item have "\<not> all_cover items g"
      by (simp add: all_cover_def)
    from Cons.IH [OF this] show ?thesis
      by (simp add: item maxcut_cost_covered [OF True])
  next
    case False
    then show ?thesis by (simp add: item maxcut_cost_uncovered)
  qed
qed

lemma get_expval_cases:
  "get_expval counts g =
     (if \<not> all_cover counts g then Inl IndexError
      else if total_count counts = 0 then Inl ZeroDivisionError
      else Inr (real_of_int (weighted_cost counts g) / real_of_int (total_count counts)))"
  by (simp add: get_expval_def expval_loop_covered expval_loop_uncovered true_divide_def)

lemma average_bounds:
  assumes "0 < (t::int)" and "lo * t \<le> w" and "w \<le> hi * t"
  shows "real_of_int lo \<le> real_of_int w / real_of_int t
       \<and> real_of_int w / real_of_int t \<le> real_of_int hi"
proof -
  from assms(1) have t: "0 < real_of_int t" by simp
  have "real_of_int lo * real_of_int t \<le> real_of_int w"
    using assms(2) by (metis of_int_le_iff of_int_mult)
  moreover have "real_of_int w \<le> real_of_int hi * real_of_int t"
    using assms(3) by (metis of_int_le_iff of_int_mult)
  ultimately show ?thesis
    using t by (simp add: pos_le_divide_eq pos_divide_le_eq)
qed

lemma weighted_cost_bounds:
  assumes "nonneg_counts counts"
    and "\<And>b n. (b, n) \<in> set counts \<Longrightarrow> lo \<le> spec_cost b g \<and> spec_cost b g \<le> hi"
  shows "lo * total_count counts \<le> weighted_cost counts g
       \<and> weighted_cost counts g \<le> hi * total_count counts"
  using assms
proof (induction counts)
  case Nil
  show ?case by (simp add: weighted_cost_def total_count_def)
next
  case (Cons item items)
  obtain b n where item: "item = (b, n)" by (cases item)
  from Cons.prems(1) item have n: "0 \<le> n" and rest: "nonneg_counts items"
    by (simp_all add: nonneg_counts_def)
  from Cons.prems(2) [of b n] item have b: "lo \<le> spec_cost b g" "spec_cost b g \<le> hi"
    by simp_all
  have ih: "lo * total_count items \<le> weighted_cost items g
          \<and> weighted_cost items g \<le> hi * total_count items"
  proof (rule Cons.IH [OF rest])
    fix c m assume "(c, m) \<in> set items"
    then show "lo \<le> spec_cost c g \<and> spec_cost c g \<le> hi"
      using Cons.prems(2) [of c m] by simp
  qed
  from b n have "lo * n \<le> spec_cost b g * n" "spec_cost b g * n \<le> hi * n"
    by (simp_all add: mult_right_mono)
  moreover note ih
  moreover have "weighted_cost (item # items) g = spec_cost b g * n + weighted_cost items g"
    "total_count (item # items) = n + total_count items"
    by (simp_all add: item weighted_cost_def total_count_def)
  ultimately show ?case by (simp add: distrib_left)
qed

lemma all_cover_member: "all_cover counts g \<Longrightarrow> (b, n) \<in> set counts \<Longrightarrow> covers b g"
  by (auto simp: all_cover_def list_all_iff)

lemma get_expval_observed_bounds:
  assumes "all_cover counts g" and "nonneg_counts counts" and "0 < total_count counts"
    and "\<And>b n v. (b, n) \<in> set counts \<Longrightarrow> maxcut_cost b g = Inr v \<Longrightarrow> lo \<le> v \<and> v \<le> hi"
  shows "real_of_int lo \<le> real_of_int (weighted_cost counts g) / real_of_int (total_count counts)
       \<and> real_of_int (weighted_cost counts g) / real_of_int (total_count counts) \<le> real_of_int hi"
proof -
  have "lo \<le> spec_cost b g \<and> spec_cost b g \<le> hi" if "(b, n) \<in> set counts" for b n
    using assms(4) [OF that maxcut_cost_covered [OF all_cover_member [OF assms(1) that]]] .
  with assms(2) have "lo * total_count counts \<le> weighted_cost counts g
       \<and> weighted_cost counts g \<le> hi * total_count counts"
    by (rule weighted_cost_bounds)
  then have l: "lo * total_count counts \<le> weighted_cost counts g"
    and u: "weighted_cost counts g \<le> hi * total_count counts"
    by simp_all
  show ?thesis by (rule average_bounds [OF assms(3) l u])
qed

lemma bit_assignment_graph3:
  assumes "bit_assignment graph3 b"
  shows "b \<in> {''000'', ''001'', ''010'', ''011'', ''100'', ''101'', ''110'', ''111''}"
proof -
  from assms have "length b = Suc (Suc (Suc 0))"
    by (simp add: bit_assignment_def graph3_def)
  then obtain x y z where b: "b = [x, y, z]"
    by (auto simp: length_Suc_conv)
  with assms show ?thesis
    by (auto simp: bit_assignment_def)
qed

lemma graph3_costs:
  "maxcut_cost ''000'' graph3 = Inr 0" "maxcut_cost ''001'' graph3 = Inr (- 2)"
  "maxcut_cost ''010'' graph3 = Inr (- 2)" "maxcut_cost ''011'' graph3 = Inr (- 2)"
  "maxcut_cost ''100'' graph3 = Inr (- 2)" "maxcut_cost ''101'' graph3 = Inr (- 2)"
  "maxcut_cost ''110'' graph3 = Inr (- 2)" "maxcut_cost ''111'' graph3 = Inr 0"
  by (simp_all add: maxcut_cost_def slice_reversed_def graph3_def getitem_def valid_index_def
      norm_index_def)

lemma graph3_bounds:
  assumes "bit_assignment graph3 b" and "maxcut_cost b graph3 = Inr v"
  shows "- 2 \<le> v \<and> v \<le> 0"
  using bit_assignment_graph3 [OF assms(1)] assms(2) by (auto simp: graph3_costs)


lemma maxcut_cost_nonpos:
  assumes "maxcut_cost bitstring g = Inr v"
  shows "v \<le> 0"
proof -
  from assms have "v = spec_cost bitstring g"
    by (simp add: maxcut_cost_cases split: if_splits)
  then show ?thesis using spec_cost_bounds [of g bitstring] by simp
qed

subsection \<open>Zero trials\<close>

text \<open>
  Claim C1, as the specification states it: with a total trial count of zero the
  evaluation fails with a dedicated invalid-configuration signal instead of an unguarded
  division by zero. \<^verbatim>\<open>get_expval\<close> has no such check: on the empty counts mapping the
  loop does nothing and the division \<^verbatim>\<open>cost/total_shots\<close> itself raises.
\<close>

theorem get_expval_empty_counts:
  "get_expval [] graph4 = Inl ZeroDivisionError"
  by (simp add: get_expval_def true_divide_def)

text \<open>
  Claim C1, amended. When the occurrence counts sum to zero, \<^verbatim>\<open>get_expval\<close> returns no
  value (in particular no NaN): it raises \<^verbatim>\<open>ZeroDivisionError\<close> at the division when
  every bit-string covers the edge endpoints, and \<^verbatim>\<open>IndexError\<close> inside the loop
  otherwise.
\<close>

theorem get_expval_zero_total:
  assumes "total_count counts = 0"
  shows "get_expval counts g =
           (if all_cover counts g then Inl ZeroDivisionError else Inl IndexError)"
  using assms by (simp add: get_expval_cases)

theorem get_expval_zero_total_witness:
  "total_count [(''0101'', 0)] = 0
   \<and> get_expval [(''0101'', 0)] graph4 = Inl ZeroDivisionError"
proof -
  have h: "total_count [(''0101'', 0)] = 0"
    by (simp add: total_count_def)
  have c: "all_cover [(''0101'', 0)] graph4"
    by (simp add: all_cover_def covers_def graph4_def valid_index_def)
  show ?thesis
    using h c get_expval_zero_total [OF h, of graph4] by simp
qed

subsection \<open>The expectation value as a weighted average\<close>

text \<open>
  Claim C3, as the specification states it: for every non-empty counts mapping
  \<^verbatim>\<open>get_expval\<close> returns the weighted average. A non-empty mapping whose counts sum to
  zero has no average: the division raises.
\<close>

theorem get_expval_nonempty_zero_count:
  "get_expval [(''0000'', 0)] graph4 = Inl ZeroDivisionError"
  by (simp add: get_expval_cases all_cover_def covers_def graph4_def valid_index_def
      total_count_def)

text \<open>
  Claim C3, amended. For every graph and every counts mapping with non-negative counts and
  a positive total, whose bit-strings cover the edge endpoints, \<^verbatim>\<open>get_expval\<close> returns
  the sum of cost times count divided by the total count. This value lies between any
  lower and upper bound of the costs of the observed bit-strings, and therefore, when the
  observed strings are bit assignments of the graph, between the minimum and the maximum
  cost over all bit assignments of the graph.
\<close>

theorem get_expval_weighted_average:
  assumes "all_cover counts g" and "nonneg_counts counts" and "0 < total_count counts"
  shows "get_expval counts g =
           Inr (real_of_int (weighted_cost counts g) / real_of_int (total_count counts))
       \<and> (\<forall>lo hi.
             (\<forall>(b, n) \<in> set counts. \<forall>v. maxcut_cost b g = Inr v \<longrightarrow> lo \<le> v \<and> v \<le> hi) \<longrightarrow>
             real_of_int lo
               \<le> real_of_int (weighted_cost counts g) / real_of_int (total_count counts)
             \<and> real_of_int (weighted_cost counts g) / real_of_int (total_count counts)
               \<le> real_of_int hi)
       \<and> (\<forall>lo hi.
             (\<forall>(b, n) \<in> set counts. bit_assignment g b)
             \<and> (\<forall>b v. bit_assignment g b \<and> maxcut_cost b g = Inr v \<longrightarrow> lo \<le> v \<and> v \<le> hi) \<longrightarrow>
             real_of_int lo
               \<le> real_of_int (weighted_cost counts g) / real_of_int (total_count counts)
             \<and> real_of_int (weighted_cost counts g) / real_of_int (total_count counts)
               \<le> real_of_int hi)"
proof -
  have quotient: "get_expval counts g =
           Inr (real_of_int (weighted_cost counts g) / real_of_int (total_count counts))"
    using assms(1,3) by (simp add: get_expval_cases)
  have observed: "real_of_int lo
               \<le> real_of_int (weighted_cost counts g) / real_of_int (total_count counts)
             \<and> real_of_int (weighted_cost counts g) / real_of_int (total_count counts)
               \<le> real_of_int hi"
    if "\<forall>(b, n) \<in> set counts. \<forall>v. maxcut_cost b g = Inr v \<longrightarrow> lo \<le> v \<and> v \<le> hi" for lo hi
  proof (rule get_expval_observed_bounds [OF assms])
    fix b n v assume "(b, n) \<in> set counts" and "maxcut_cost b g = Inr v"
    with that show "lo \<le> v \<and> v \<le> hi" by blast
  qed
  have achievable: "real_of_int lo
               \<le> real_of_int (weighted_cost counts g) / real_of_int (total_count counts)
             \<and> real_of_int (weighted_cost counts g) / real_of_int (total_count counts)
               \<le> real_of_int hi"
    if "\<forall>(b, n) \<in> set counts. bit_assignment g b"
      and "\<forall>b v. bit_assignment g b \<and> maxcut_cost b g = Inr v \<longrightarrow> lo \<le> v \<and> v \<le> hi" for lo hi
  proof (rule get_expval_observed_bounds [OF assms])
    fix b n v assume "(b, n) \<in> set counts" and "maxcut_cost b g = Inr v"
    with that show "lo \<le> v \<and> v \<le> hi" by blast
  qed
  show ?thesis
    using quotient observed achievable by blast
qed

theorem get_expval_weighted_average_witness:
  "all_cover [(''001'', 3), (''000'', 1)] graph3
   \<and> nonneg_counts [(''001'', 3), (''000'', 1)]
   \<and> 0 < total_count [(''001'', 3), (''000'', 1)]
   \<and> bit_assignment graph3 ''001'' \<and> bit_assignment graph3 ''000''
   \<and> maxcut_cost ''001'' graph3 = Inr (- 2) \<and> maxcut_cost ''000'' graph3 = Inr 0
   \<and> get_expval [(''001'', 3), (''000'', 1)] graph3 = Inr (- 3 / 2)
   \<and> - 2 \<le> (- 3 / 2 :: real) \<and> (- 3 / 2 :: real) \<le> 0"
proof -
  have c: "all_cover [(''001'', 3), (''000'', 1)] graph3"
    by (simp add: all_cover_def covers_def graph3_def valid_index_def)
  have n: "nonneg_counts [(''001'', 3), (''000'', 1)]"
    by (simp add: nonneg_counts_def)
  have t: "0 < total_count [(''001'', 3), (''000'', 1)]"
    by (simp add: total_count_def)
  have a: "bit_assignment graph3 ''001''" "bit_assignment graph3 ''000''"
    by (simp_all add: bit_assignment_def graph3_def)
  have w: "weighted_cost [(''001'', 3), (''000'', 1)] graph3 = - 6"
    by (simp add: weighted_cost_def spec_cost_def edge_term_def vertex_bit_def norm_index_def
        graph3_def)
  have tc: "total_count [(''001'', 3), (''000'', 1)] = 4"
    by (simp add: total_count_def)
  have ob: "\<forall>(b, n) \<in> set [(''001'', 3 :: int), (''000'', 1)].
              \<forall>v. maxcut_cost b graph3 = Inr v \<longrightarrow> - 2 \<le> v \<and> v \<le> 0"
    by (simp add: graph3_costs)
  have ac: "(\<forall>(b, n) \<in> set [(''001'', 3 :: int), (''000'', 1)]. bit_assignment graph3 b)
            \<and> (\<forall>b v. bit_assignment graph3 b \<and> maxcut_cost b graph3 = Inr v
                  \<longrightarrow> - 2 \<le> v \<and> v \<le> 0)"
    using a graph3_bounds by auto
  from get_expval_weighted_average [OF c n t]
  have "get_expval [(''001'', 3), (''000'', 1)] graph3 =
          Inr (real_of_int (weighted_cost [(''001'', 3), (''000'', 1)] graph3)
               / real_of_int (total_count [(''001'', 3), (''000'', 1)]))"
    and "real_of_int (- 2)
           \<le> real_of_int (weighted_cost [(''001'', 3), (''000'', 1)] graph3)
              / real_of_int (total_count [(''001'', 3), (''000'', 1)])
         \<and> real_of_int (weighted_cost [(''001'', 3), (''000'', 1)] graph3)
              / real_of_int (total_count [(''001'', 3), (''000'', 1)])
           \<le> real_of_int 0"
    using ob ac by blast+
  then show ?thesis
    using c n t a by (simp add: w tc graph3_costs)
qed

section \<open>Properties of the circuit builder\<close>

lemma getitem_nat: "l < length seq \<Longrightarrow> getitem seq (int l) = Inr (seq ! l)"
  by (simp add: getitem_def valid_index_def norm_index_def)

lemma cx_valid:
  "valid_edge n ab \<Longrightarrow>
     cx n (fst ab) (snd ab) = Inr (CX (norm_index n (fst ab)) (norm_index n (snd ab)))"
  by (simp add: cx_def qubit_arg_def valid_edge_def)

lemma rz_valid:
  "valid_edge n ab \<Longrightarrow> rz n theta (snd ab) = Inr (RZ theta (norm_index n (snd ab)))"
  by (simp add: rz_def qubit_arg_def valid_edge_def)

lemma cost_loop_in_range:
  assumes "l < length gammas" and "list_all (valid_edge n) es"
  shows "cost_loop n gammas (int l) es qc =
           Inr (qc @ concat (map (cost_block n (gammas ! l)) es))"
  using assms(2)
proof (induction es arbitrary: qc)
  case Nil
  show ?case by simp
next
  case (Cons ab es)
  from Cons.prems have ab: "valid_edge n ab" and rest: "list_all (valid_edge n) es"
    by simp_all
  show ?case
    by (simp add: cx_valid [OF ab] rz_valid [OF ab] getitem_nat [OF assms(1)]
        Cons.IH [OF rest] cost_block_def)
qed

lemma on_range_pos: "0 < n \<Longrightarrow> on_range n gate = Inr (map gate [0..<n])"
  by (simp add: on_range_def)

lemma layer_loop_in_range:
  assumes "well_formed g"
    and "\<And>l. l \<in> set ls \<Longrightarrow> l < length gammas \<and> l < length betas"
  shows "layer_loop g gammas betas (length (nodes g)) (map int ls) qc =
           Inr (qc @ concat (map (qaoa_layer g gammas betas) ls))"
  using assms(2)
proof (induction ls arbitrary: qc)
  case Nil
  show ?case by simp
next
  case (Cons l ls)
  from Cons.prems have l: "l < length gammas" "l < length betas"
    and rest: "\<And>k. k \<in> set ls \<Longrightarrow> k < length gammas \<and> k < length betas"
    by simp_all
  from assms(1) have n: "0 < length (nodes g)"
    and es: "list_all (valid_edge (length (nodes g))) (edges g)"
    by (simp_all add: well_formed_def)
  have step: "qc @ concat (map (cost_block (length (nodes g)) (gammas ! l)) (edges g))
                 @ Barrier # map (RX (betas ! l)) [0..<length (nodes g)]
              = qc @ qaoa_layer g gammas betas l"
    by (simp add: qaoa_layer_def layer_block_def mixer_block_def)
  show ?case
    using Cons.IH [OF rest, of "qc @ qaoa_layer g gammas betas l"] step
    by (simp add: cost_loop_in_range [OF l(1) es] getitem_nat [OF l(2)] on_range_pos [OF n])
qed

lemma Build_QAOA_in_range:
  assumes "well_formed g" and "nat layers \<le> length gammas" and "nat layers \<le> length betas"
  shows "Build_QAOA g gammas betas layers = Inr (spec_circuit g gammas betas (nat layers))"
proof -
  from assms(1) have n: "0 < length (nodes g)"
    by (simp add: well_formed_def)
  have "l < length gammas \<and> l < length betas" if "l \<in> set [0..<nat layers]" for l
    using that assms(2,3) by simp
  from layer_loop_in_range [of g "[0..<nat layers]" gammas betas, OF assms(1) this]
  show ?thesis
    by (simp add: Build_QAOA_def Let_def py_range_def spec_circuit_def on_range_pos [OF n])
qed

lemma spec_circuit_cong:
  assumes "length (nodes g') = length (nodes g)" and "edges g' = edges g"
    and "take L gammas' = take L gammas" and "take L betas' = take L betas"
  shows "spec_circuit g' gammas' betas' L = spec_circuit g gammas betas L"
proof -
  have "qaoa_layer g' gammas' betas' l = qaoa_layer g gammas betas l" if "l < L" for l
  proof -
    from that have "gammas' ! l = take L gammas' ! l" "gammas ! l = take L gammas ! l"
      "betas' ! l = take L betas' ! l" "betas ! l = take L betas ! l"
      by simp_all
    with assms show ?thesis
      by (simp add: qaoa_layer_def layer_block_def)
  qed
  then have "map (qaoa_layer g' gammas' betas') [0..<L] = map (qaoa_layer g gammas betas) [0..<L]"
    by simp
  then have eq: "concat (map (qaoa_layer g' gammas' betas') [0..<L])
                 = concat (map (qaoa_layer g gammas betas) [0..<L])"
    by (rule arg_cong)
  show ?thesis
    by (simp add: spec_circuit_def eq assms(1))
qed

lemma well_formed_cong:
  "length (nodes g') = length (nodes g) \<Longrightarrow> edges g' = edges g \<Longrightarrow>
     well_formed g' = well_formed g"
  by (auto simp: well_formed_def)

lemma take_eq_length:
  assumes "take L xs' = take L xs" and "L \<le> length xs"
  shows "L \<le> length xs'"
proof -
  from assms(1) have "length (take L xs') = length (take L xs)" by simp
  with assms(2) show ?thesis by simp
qed

lemma Build_QAOA_depends:
  assumes "well_formed g" and "nat layers \<le> length gammas" and "nat layers \<le> length betas"
    and "length (nodes g') = length (nodes g)" and "edges g' = edges g"
    and "take (nat layers) gammas' = take (nat layers) gammas"
    and "take (nat layers) betas' = take (nat layers) betas"
  shows "Build_QAOA g' gammas' betas' layers = Build_QAOA g gammas betas layers"
proof -
  have wf: "well_formed g'"
    using assms(1) by (simp add: well_formed_cong [OF assms(4,5)])
  have "Build_QAOA g' gammas' betas' layers = Inr (spec_circuit g' gammas' betas' (nat layers))"
    using wf take_eq_length [OF assms(6,2)] take_eq_length [OF assms(7,3)]
    by (rule Build_QAOA_in_range)
  also have "\<dots> = Inr (spec_circuit g gammas betas (nat layers))"
    by (simp add: spec_circuit_cong [OF assms(4-7)])
  also have "\<dots> = Build_QAOA g gammas betas layers"
    using assms(1-3) by (simp add: Build_QAOA_in_range)
  finally show ?thesis .
qed

lemma well_formed_graph2: "well_formed graph2"
  by (simp add: well_formed_def valid_edge_def graph2_def valid_index_def norm_index_def)

subsection \<open>The circuit built by \<^verbatim>\<open>Build_QAOA\<close>\<close>

text \<open>
  Claim C4, as the specification states it: for every graph \<^verbatim>\<open>Build_QAOA\<close> produces
  the circuit. On a graph with the self-loop (1, 1) the second edge's \<^verbatim>\<open>cx(1, 1)\<close> names
  one qubit twice and the gate call raises.
\<close>

theorem Build_QAOA_self_loop:
  "Build_QAOA \<lparr>nodes = [0, 1], edges = [(0, 1), (1, 1)]\<rparr> [1] [2] 1 = Inl CircuitError"
  by (simp add: Build_QAOA_def on_range_def py_range_def cx_def rz_def qubit_arg_def
      getitem_def valid_index_def norm_index_def)

text \<open>
  Claim C4, amended. For every graph with at least one vertex whose edges each join two
  valid qubit indices of different qubits, every layer count \<open>L\<close> and angle lists of
  length at least \<open>L\<close>, \<^verbatim>\<open>Build_QAOA\<close> raises nothing and produces the circuit on one
  qubit per graph vertex that consists of a Hadamard on every qubit, then \<open>L\<close>
  repetitions of one cost block per edge with that layer's cost angle followed by one
  X-rotation per vertex with that layer's mixer angle, then a measurement of every qubit.
  The circuit is determined by the inputs: identical inputs yield the identical circuit,
  and so do inputs that agree on the number of vertices, the edges and the first \<open>L\<close>
  angles of each list.
\<close>

theorem Build_QAOA_circuit:
  assumes "well_formed g" and "nat layers \<le> length gammas" and "nat layers \<le> length betas"
  shows "Build_QAOA g gammas betas layers = Inr (spec_circuit g gammas betas (nat layers))
       \<and> num_qubits (spec_circuit g gammas betas (nat layers)) = length (nodes g)
       \<and> (\<forall>g' gammas' betas' layers'.
             g' = g \<and> gammas' = gammas \<and> betas' = betas \<and> layers' = layers \<longrightarrow>
             Build_QAOA g' gammas' betas' layers' = Build_QAOA g gammas betas layers)
       \<and> (\<forall>g' gammas' betas'.
             length (nodes g') = length (nodes g) \<and> edges g' = edges g
             \<and> take (nat layers) gammas' = take (nat layers) gammas
             \<and> take (nat layers) betas' = take (nat layers) betas \<longrightarrow>
             Build_QAOA g' gammas' betas' layers = Build_QAOA g gammas betas layers)"
proof -
  have built: "Build_QAOA g gammas betas layers = Inr (spec_circuit g gammas betas (nat layers))"
    using assms by (rule Build_QAOA_in_range)
  have qubits: "num_qubits (spec_circuit g gammas betas (nat layers)) = length (nodes g)"
    by (simp add: spec_circuit_def)
  have agree: "Build_QAOA g' gammas' betas' layers = Build_QAOA g gammas betas layers"
    if "length (nodes g') = length (nodes g)" and "edges g' = edges g"
      and "take (nat layers) gammas' = take (nat layers) gammas"
      and "take (nat layers) betas' = take (nat layers) betas" for g' gammas' betas'
    using assms that by (rule Build_QAOA_depends)
  show ?thesis
    using built qubits agree by blast
qed

theorem Build_QAOA_circuit_witness:
  "well_formed graph2 \<and> nat 1 \<le> length [1 :: real] \<and> nat 1 \<le> length [2 :: real]
   \<and> Build_QAOA graph2 [1] [2] 1 =
       Inr \<lparr>num_qubits = 2, num_clbits = 2,
            data = [H 0, H 1, Barrier, CX 0 1, RZ (1 / 2) 1, CX 0 1, Barrier, RX 2 0, RX 2 1,
                    Measure 0 0, Measure 1 1]\<rparr>
   \<and> Build_QAOA \<lparr>nodes = [0, 1], edges = [(0, 1)]\<rparr> [1, 5] [2, 6] 1 =
       Build_QAOA graph2 [1] [2] 1"
proof -
  have h1: "nat 1 \<le> length [1 :: real]" and h2: "nat 1 \<le> length [2 :: real]"
    by simp_all
  have c: "spec_circuit graph2 [1] [2] (Suc 0) =
       \<lparr>num_qubits = 2, num_clbits = 2,
        data = [H 0, H 1, Barrier, CX 0 1, RZ (1 / 2) 1, CX 0 1, Barrier, RX 2 0, RX 2 1,
                Measure 0 0, Measure 1 1]\<rparr>"
    by (simp add: spec_circuit_def qaoa_layer_def layer_block_def cost_block_def
        mixer_block_def graph2_def norm_index_def upt_rec)
  have same: "length (nodes \<lparr>nodes = [0, 1], edges = [(0, 1)]\<rparr>) = length (nodes graph2)
      \<and> edges \<lparr>nodes = [0, 1], edges = [(0, 1)]\<rparr> = edges graph2
      \<and> take (nat 1) [1, 5 :: real] = take (nat 1) [1]
      \<and> take (nat 1) [2, 6 :: real] = take (nat 1) [2]"
    by (simp add: graph2_def)
  from Build_QAOA_circuit [OF well_formed_graph2 h1 h2]
  have "Build_QAOA graph2 [1] [2] 1 = Inr (spec_circuit graph2 [1] [2] (nat 1))"
    and "Build_QAOA \<lparr>nodes = [0, 1], edges = [(0, 1)]\<rparr> [1, 5] [2, 6] 1 =
           Build_QAOA graph2 [1] [2] 1"
    using same by blast+
  then show ?thesis
    using well_formed_graph2 by (simp add: c)
qed

section \<open>Properties of the objective function\<close>

lemma slice_upto_nonneg: "0 \<le> k \<Longrightarrow> slice_upto seq k = take (nat k) seq"
  by (simp add: slice_upto_def norm_index_def)

lemma slice_from_nonneg: "0 \<le> k \<Longrightarrow> slice_from seq k = drop (nat k) seq"
  by (simp add: slice_from_def norm_index_def)

lemma length_x0: "length (x0 layers) = 2 * nat layers"
  by (simp add: x0_def py_range_def)

lemma x0_replicate: "x0 layers = replicate (nat layers) gamma_0 @ replicate (nat layers) beta_0"
  by (simp add: x0_def py_range_def map_replicate_const)

lemma run_QAOA_split:
  assumes "0 \<le> layers"
  shows "run_QAOA g bk shots layers angles s =
           run_angles g bk shots layers (take (nat layers) angles) (drop (nat layers) angles) s"
  using assms by (simp add: run_QAOA_def slice_upto_nonneg slice_from_nonneg)

lemma optimize_QAOA_unfold:
  "optimize_QAOA minimize g bk shots iterations layers method s =
     minimize (run_QAOA g bk shots layers) (x0 layers) method (1 / 100) iterations
       (s\<lparr>expval_list := []\<rparr>)"
  by (simp add: optimize_QAOA_def get_QAOA_func_def)

lemma run_angles_snd:
  "expval_list (snd (run_angles g bk shots layers gammas betas s)) =
     expval_list s @ returned [fst (run_angles g bk shots layers gammas betas s)]"
  by (simp add: run_angles_def split: sum.splits prod.splits)

lemma run_angles_trace:
  assumes "run_angles g bk shots layers gammas betas s = (r, s')"
  shows "expval_list s' = expval_list s @ returned [r]"
  using run_angles_snd [of g bk shots layers gammas betas s] assms by simp

lemma run_QAOA_trace:
  "run_QAOA g bk shots layers angles s = (r, s') \<Longrightarrow>
     expval_list s' = expval_list s @ returned [r]"
  unfolding run_QAOA_def Let_def by (rule run_angles_trace)

lemma returned_Cons: "returned (r # rs) = returned [r] @ returned rs"
  by (cases r) simp_all

lemma evaluations_trace:
  assumes "\<And>angles s r s'. func angles s = (r, s') \<Longrightarrow> expval_list s' = expval_list s @ returned [r]"
  shows "evaluations func qs s = (rs, s') \<Longrightarrow>
           length rs = length qs \<and> expval_list s' = expval_list s @ returned rs"
proof (induction qs arbitrary: s rs s')
  case Nil
  then show ?case by simp
next
  case (Cons q qs)
  obtain r s1 where first: "func q s = (r, s1)" by (cases "func q s")
  obtain rs1 s2 where rest: "evaluations func qs s1 = (rs1, s2)"
    by (cases "evaluations func qs s1")
  from Cons.prems first rest have eq: "rs = r # rs1" "s' = s2" by simp_all
  from Cons.IH [OF rest] assms [OF first] show ?case
    by (simp add: eq returned_Cons [of r rs1])
qed

lemma returned_map_Inr: "returned (map Inr vs) = vs"
  by (induction vs) simp_all

lemma counting_backend_run:
  "run_QAOA graph2 counting_backend shots 1 [a, b] \<lparr>expval_list = tr, sampler = Suc r\<rparr> =
     (Inr (- real (Suc r) / real (Suc (Suc r))),
      \<lparr>expval_list = tr @ [- real (Suc r) / real (Suc (Suc r))], sampler = Suc (Suc r)\<rparr>)"
proof -
  have built: "Build_QAOA graph2 [a] [b] 1 = Inr (spec_circuit graph2 [a] [b] (nat 1))"
    by (rule Build_QAOA_in_range [OF well_formed_graph2]) simp_all
  have expval: "get_expval [(''01'', int (Suc r)), (''00'', 1)] graph2 =
                  Inr (- real (Suc r) / real (Suc (Suc r)))"
    by (simp add: get_expval_cases all_cover_def covers_def graph2_def valid_index_def
        total_count_def weighted_cost_def spec_cost_def edge_term_def vertex_bit_def
        norm_index_def)
  show ?thesis
    using expval by (simp add: run_QAOA_split run_angles_def built counting_backend_def)
qed

lemma spec_circuit_vector:
  assumes "2 * L \<le> length angles"
  shows "spec_circuit g (take L angles) (drop L angles) L = vector_circuit g angles L"
proof -
  have "qaoa_layer g (take L angles) (drop L angles) l
          = layer_block g (angles ! l) (angles ! (L + l))" if "l < L" for l
    using that assms by (simp add: qaoa_layer_def)
  then have "map (qaoa_layer g (take L angles) (drop L angles)) [0..<L]
               = map (\<lambda>l. layer_block g (angles ! l) (angles ! (L + l))) [0..<L]"
    by simp
  then have eq: "concat (map (qaoa_layer g (take L angles) (drop L angles)) [0..<L])
                 = concat (map (\<lambda>l. layer_block g (angles ! l) (angles ! (L + l))) [0..<L])"
    by (rule arg_cong)
  show ?thesis
    by (simp add: spec_circuit_def vector_circuit_def eq)
qed

lemma run_QAOA_circuit:
  assumes "0 \<le> layers" and "2 * nat layers \<le> length angles" and "well_formed g"
  shows "run_QAOA g bk shots layers angles s =
           (case run_get_counts bk (transpile bk (vector_circuit g angles (nat layers))) shots
                   (sampler s) of
              (counts, r) \<Rightarrow>
                (case get_expval counts g of
                   Inl e \<Rightarrow> (Inl e, s\<lparr>sampler := r\<rparr>)
                 | Inr expval \<Rightarrow>
                     (Inr expval, s\<lparr>expval_list := expval_list s @ [expval], sampler := r\<rparr>)))"
proof -
  from assms(2) have g: "nat layers \<le> length (take (nat layers) angles)"
    and b: "nat layers \<le> length (drop (nat layers) angles)"
    by simp_all
  have "Build_QAOA g (take (nat layers) angles) (drop (nat layers) angles) layers
          = Inr (vector_circuit g angles (nat layers))"
    using Build_QAOA_in_range [OF assms(3) g b] spec_circuit_vector [OF assms(2)] by simp
  then show ?thesis
    by (simp add: run_QAOA_split [OF assms(1)] run_angles_def)
qed

subsection \<open>The layout of the parameter vector\<close>

text \<open>
  Claim C5. For a layer count \<open>L\<close> the objective function takes the first \<open>L\<close> entries
  of its parameter vector as the cost angles and the remaining entries as the mixer
  angles: the circuit it hands to the backend rotates by half of entry \<open>l\<close> in the cost
  blocks of layer \<open>l\<close> and by entry \<open>L + l\<close> in the mixer rotations of layer \<open>l\<close>. For
  a vector of length \<open>2 L\<close> the two parts have length \<open>L\<close> each, and the initial guess
  that \<^verbatim>\<open>optimize_QAOA\<close> hands to the minimizer has length exactly \<open>2 L\<close>.
\<close>

theorem parameter_vector_layout:
  assumes "0 \<le> layers" and "2 * nat layers \<le> length angles" and "well_formed g"
  shows "run_QAOA g bk shots layers angles s =
           (case run_get_counts bk (transpile bk (vector_circuit g angles (nat layers))) shots
                   (sampler s) of
              (counts, r) \<Rightarrow>
                (case get_expval counts g of
                   Inl e \<Rightarrow> (Inl e, s\<lparr>sampler := r\<rparr>)
                 | Inr expval \<Rightarrow>
                     (Inr expval, s\<lparr>expval_list := expval_list s @ [expval], sampler := r\<rparr>)))
       \<and> slice_upto angles layers = take (nat layers) angles
       \<and> slice_from angles layers = drop (nat layers) angles
       \<and> (length angles = 2 * nat layers \<longrightarrow>
            length (slice_upto angles layers) = nat layers
            \<and> length (slice_from angles layers) = nat layers)
       \<and> length (x0 layers) = 2 * nat layers
       \<and> optimize_QAOA minimize g bk shots iterations layers method s =
           minimize (run_QAOA g bk shots layers) (x0 layers) method (1 / 100) iterations
             (s\<lparr>expval_list := []\<rparr>)"
proof -
  note run_QAOA_circuit [OF assms, of bk shots s]
  moreover from assms(1) have "slice_upto angles layers = take (nat layers) angles"
    and "slice_from angles layers = drop (nat layers) angles"
    by (simp_all add: slice_upto_nonneg slice_from_nonneg)
  moreover have "length (x0 layers) = 2 * nat layers"
    by (rule length_x0)
  moreover have "optimize_QAOA minimize g bk shots iterations layers method s =
           minimize (run_QAOA g bk shots layers) (x0 layers) method (1 / 100) iterations
             (s\<lparr>expval_list := []\<rparr>)"
    by (rule optimize_QAOA_unfold)
  ultimately show ?thesis by simp
qed

theorem parameter_vector_layout_witness:
  "(0 :: int) \<le> 2 \<and> 2 * nat 2 \<le> length [1, 2, 3, 4 :: real] \<and> well_formed graph2
   \<and> run_QAOA graph2 recording_backend 100 2 [1, 2, 3, 4] \<lparr>expval_list = [], sampler = []\<rparr> =
       (Inr (- 1),
        \<lparr>expval_list = [- 1],
         sampler =
           [\<lparr>num_qubits = 2, num_clbits = 2,
             data = [H 0, H 1,
                     Barrier, CX 0 1, RZ (1 / 2) 1, CX 0 1, Barrier, RX 3 0, RX 3 1,
                     Barrier, CX 0 1, RZ 1 1, CX 0 1, Barrier, RX 4 0, RX 4 1,
                     Measure 0 0, Measure 1 1]\<rparr>]\<rparr>)
   \<and> slice_upto [1, 2, 3, 4 :: real] 2 = [1, 2] \<and> slice_from [1, 2, 3, 4 :: real] 2 = [3, 4]
   \<and> length (x0 2) = 4
   \<and> optimize_QAOA (\<lambda>func x method tol maxiter s. (x, s)) graph2 recording_backend 100 150 2
         ''COBYLA'' \<lparr>expval_list = [7], sampler = []\<rparr> =
       ([3.147, 3.147, 3.147, 3.147], \<lparr>expval_list = [], sampler = []\<rparr>)"
proof -
  have h1: "(0 :: int) \<le> 2" and h2: "2 * nat 2 \<le> length [1, 2, 3, 4 :: real]"
    by simp_all
  have x: "x0 2 = [3.147, 3.147, 3.147, 3.147]"
    by (simp add: x0_replicate gamma_0_def beta_0_def numeral_2_eq_2)
  have c: "vector_circuit graph2 [1, 2, 3, 4] (Suc (Suc 0)) =
       \<lparr>num_qubits = 2, num_clbits = 2,
        data = [H 0, H 1,
                Barrier, CX 0 1, RZ (1 / 2) 1, CX 0 1, Barrier, RX 3 0, RX 3 1,
                Barrier, CX 0 1, RZ 1 1, CX 0 1, Barrier, RX 4 0, RX 4 1,
                Measure 0 0, Measure 1 1]\<rparr>"
    by (simp add: vector_circuit_def layer_block_def cost_block_def mixer_block_def graph2_def
        norm_index_def upt_rec)
  have e: "get_expval [(''01'', 1)] graph2 = Inr (- 1)"
    by (simp add: get_expval_cases all_cover_def covers_def graph2_def valid_index_def
        total_count_def weighted_cost_def spec_cost_def edge_term_def vertex_bit_def
        norm_index_def)
  have n: "nat 2 = Suc (Suc 0)" by simp
  show ?thesis
    using well_formed_graph2
      parameter_vector_layout [OF h1 h2 well_formed_graph2, of recording_backend 100
        "\<lparr>expval_list = [], sampler = []\<rparr>" "\<lambda>func x method tol maxiter s. (x, s)" 150 "''COBYLA''"]
      parameter_vector_layout [OF h1 h2 well_formed_graph2, of recording_backend 100
        "\<lparr>expval_list = [7], sampler = []\<rparr>" "\<lambda>func x method tol maxiter s. (x, s)" 150 "''COBYLA''"]
    unfolding n by (simp add: x c e recording_backend_def)
qed

subsection \<open>The optimization trace\<close>

text \<open>
  Claim C6. \<^verbatim>\<open>get_QAOA_func\<close> clears \<^verbatim>\<open>expval_list\<close>. Every call of the objective
  function it returns leaves the earlier entries in place and appends exactly the scalar
  it returns (nothing when it raises), so after the calls of a run the list holds the
  returned values in call order.
\<close>

theorem expval_list_append_only:
  assumes "get_QAOA_func g bk shots layers s = (func, s0)"
    and "evaluations func qs s0 = (rs, s1)"
  shows "expval_list s0 = []
       \<and> length rs = length qs
       \<and> expval_list s1 = returned rs
       \<and> (rs = map Inr vs \<longrightarrow> expval_list s1 = vs \<and> length vs = length qs)
       \<and> (\<forall>angles st r st'. func angles st = (r, st') \<longrightarrow>
            (case r of Inr v \<Rightarrow> expval_list st' = expval_list st @ [v]
                     | Inl e \<Rightarrow> expval_list st' = expval_list st))
       \<and> (\<forall>ps st rs' st'. evaluations func ps st = (rs', st') \<longrightarrow>
            expval_list st' = expval_list st @ returned rs')"
proof -
  from assms(1) have func: "func = run_QAOA g bk shots layers" and s0: "expval_list s0 = []"
    by (auto simp: get_QAOA_func_def)
  have step: "expval_list st' = expval_list st @ returned [r]"
    if "func angles st = (r, st')" for angles st r st'
    using that unfolding func by (rule run_QAOA_trace)
  have seq: "length rs' = length ps \<and> expval_list st' = expval_list st @ returned rs'"
    if "evaluations func ps st = (rs', st')" for ps st rs' st'
    using step that by (rule evaluations_trace)
  from seq [OF assms(2)] s0 have run: "length rs = length qs" "expval_list s1 = returned rs"
    by simp_all
  have single: "case r of Inr v \<Rightarrow> expval_list st' = expval_list st @ [v]
                        | Inl e \<Rightarrow> expval_list st' = expval_list st"
    if "func angles st = (r, st')" for angles st r st'
    using step [OF that] by (cases r) simp_all
  have vs: "expval_list s1 = vs \<and> length vs = length qs" if "rs = map Inr vs"
    using run that by (simp add: returned_map_Inr)
  show ?thesis
    using s0 run vs single seq by blast
qed

theorem expval_list_append_only_witness:
  "get_QAOA_func graph2 counting_backend 100 1 \<lparr>expval_list = [5], sampler = 1\<rparr> =
     (run_QAOA graph2 counting_backend 100 1, \<lparr>expval_list = [], sampler = 1\<rparr>)
   \<and> evaluations (run_QAOA graph2 counting_backend 100 1) [[1, 2], [3, 4]]
         \<lparr>expval_list = [], sampler = 1\<rparr> =
       ([Inr (- 1 / 2), Inr (- 2 / 3)], \<lparr>expval_list = [- 1 / 2, - 2 / 3], sampler = 3\<rparr>)
   \<and> expval_list \<lparr>expval_list = [- 1 / 2, - 2 / 3 :: real], sampler = 3 :: nat\<rparr> =
       returned [Inr (- 1 / 2), Inr (- 2 / 3)]"
proof -
  have h1: "get_QAOA_func graph2 counting_backend 100 1 \<lparr>expval_list = [5], sampler = 1\<rparr> =
     (run_QAOA graph2 counting_backend 100 1, \<lparr>expval_list = [], sampler = 1\<rparr>)"
    by (simp add: get_QAOA_func_def)
  have h2: "evaluations (run_QAOA graph2 counting_backend 100 1) [[1, 2], [3, 4]]
         \<lparr>expval_list = [], sampler = 1\<rparr> =
       ([Inr (- 1 / 2), Inr (- 2 / 3)], \<lparr>expval_list = [- 1 / 2, - 2 / 3], sampler = 3\<rparr>)"
    using counting_backend_run [of 100 1 2 "[]" 0] counting_backend_run [of 100 3 4 "[- 1 / 2]" 1]
    by (simp add: numeral_3_eq_3)
  show ?thesis
    using h1 h2 expval_list_append_only [OF h1 h2] by simp
qed

section \<open>Properties of the solution extraction\<close>

lemma indices_of_set:
  "set (indices_of b configuration) = {i. i < length configuration \<and> configuration ! i = b}"
proof (rule set_eqI, rule iffI)
  fix i assume "i \<in> set (indices_of b configuration)"
  then obtain v where "(i, v) \<in> set (enumerate 0 configuration)" and "v = b"
    by (auto simp: indices_of_def)
  then show "i \<in> {i. i < length configuration \<and> configuration ! i = b}"
    by (simp add: in_set_enumerate_eq)
next
  fix i assume "i \<in> {i. i < length configuration \<and> configuration ! i = b}"
  then have "(i, b) \<in> set (enumerate 0 configuration)"
    by (simp add: in_set_enumerate_eq)
  then have "(i, b) \<in> set (filter (\<lambda>(i, v). v = b) (enumerate 0 configuration))"
    by simp
  then have "fst (i, b) \<in> fst ` set (filter (\<lambda>(i, v). v = b) (enumerate 0 configuration))"
    by (rule imageI)
  then show "i \<in> set (indices_of b configuration)"
    by (simp add: indices_of_def)
qed

lemma vertex_bit_nat:
  "i < length bitstring \<Longrightarrow> vertex_bit bitstring (int i) = solution_configuration bitstring ! i"
  by (simp add: vertex_bit_def norm_index_def solution_configuration_def slice_reversed_rev)

lemma extraction_reads_vertex_bits:
  "set (indices_of b (solution_configuration bitstring)) =
     {i. i < length bitstring \<and> vertex_bit bitstring (int i) = b}"
proof -
  have "length (solution_configuration bitstring) = length bitstring"
    by (simp add: solution_configuration_def slice_reversed_rev)
  then show ?thesis
    using vertex_bit_nat [of _ bitstring] by (auto simp: indices_of_set)
qed

subsection \<open>Reversal round-trips\<close>

text \<open>
  Claim C9. Reversing a bit-string twice reproduces it. The reversal inside
  \<^verbatim>\<open>maxcut_cost\<close> and the reversal of the solution extraction are the same operation:
  \<^verbatim>\<open>maxcut_cost\<close> indexes exactly the extracted configuration, reversing the extracted
  configuration gives back the measured string, and the extraction puts vertex \<open>i\<close> into
  the group of the bit that \<^verbatim>\<open>maxcut_cost\<close> reads for vertex \<open>i\<close>.
\<close>

theorem reversal_round_trip:
  "slice_reversed (slice_reversed bitstring) = bitstring
   \<and> slice_reversed (solution_configuration bitstring) = bitstring
   \<and> maxcut_cost bitstring g = maxcut_loop (solution_configuration bitstring) (edges g) 0
   \<and> maxcut_cost (slice_reversed (solution_configuration bitstring)) g = maxcut_cost bitstring g
   \<and> set (indices_of b (solution_configuration bitstring)) =
       {i. i < length bitstring \<and> vertex_bit bitstring (int i) = b}"
  by (simp add: slice_reversed_rev solution_configuration_def maxcut_cost_def
      extraction_reads_vertex_bits [unfolded solution_configuration_def slice_reversed_rev])

end
